theory Spec2Isabelle
  imports Complex_Main "HOL-Library.AList"
begin

section \<open>The compatibility retrieval engine of app.py\<close>

text \<open>
  The development embeds the two functions of \<^verbatim>\<open>app.py\<close> that make up the feature
  store and the similarity engine: \<^verbatim>\<open>normalize_features\<close> and
  \<^verbatim>\<open>find_compatible_items\<close>.

  Numbers. The tensors of the program hold IEEE floats, whose arithmetic rounds,
  overflows and has NaN. Each of the two functions is therefore given twice. In
  \<open>normalize_features_with\<close> and \<open>find_compatible_items_with\<close> the arithmetic is left
  open: the norm, the division and the matrix product are parameters, tensor entries and
  scores are of an arbitrary type, and all that is used of a score is the order in which
  \<^verbatim>\<open>torch.topk\<close> compares it (a linear order once equal-comparing values are
  identified, NaN being the largest). What is proved of these holds of the program
  whatever its arithmetic does. In \<open>normalize_features\<close> and
  \<open>find_compatible_items\<close> the entries are \<^typ>\<open>real\<close> and the arithmetic is exact;
  they serve the properties that no rounding can touch (shapes, lengths, errors, the
  page) and the concrete evaluations, whose stores have entries 0, 1 and -1 (and one row
  \<open>[3, 4]\<close>) so that the float computation gives the same selection.

  Library calls. \<^verbatim>\<open>sklearn.preprocessing.normalize\<close>, \<^verbatim>\<open>torch.matmul\<close>, tensor
  indexing and \<^verbatim>\<open>torch.topk\<close> are modelled by what they compute and by the exceptions
  they raise. \<^verbatim>\<open>torch.topk\<close> documents which elements it returns and that they come
  sorted, but not which of several equal elements it prefers; the engine is therefore
  parameterised by the selection function, and \<open>topk_ok\<close> states the documented contract.
  \<open>topk_cpu\<close> is the selection the CPU kernel of torch performs.
\<close>

subsection \<open>Errors, tensors and the session\<close>

datatype error =
    ValueError        \<comment> \<open>sklearn's input check: an array with no sample or no feature\<close>
  | MatmulShapeError  \<comment> \<open>torch RuntimeError: the shapes cannot be multiplied\<close>
  | TopkRangeError    \<comment> \<open>torch RuntimeError: selected index k out of range\<close>
  | IndexError        \<comment> \<open>index out of range\<close>

text \<open>A two-dimensional tensor of shape \<open>(length rows, ncols)\<close>.\<close>

record 'a tensor2 =
  ncols :: nat
  rows :: "'a list list"

text \<open>
  What the function reads and writes besides its arguments: the module-level list
  \<^verbatim>\<open>classes\<close>, and the Streamlit page, to which \<^verbatim>\<open>st.warning\<close> appends.
\<close>

datatype ui_event = Warning string

record session =
  classes :: "string list"
  ui :: "ui_event list"

text \<open>The result dictionary: category name to list of item paths, in insertion order.\<close>

type_synonym compatibility = "(string \<times> string list) list"

type_synonym 's topk_fn = "'s list \<Rightarrow> nat \<Rightarrow> nat list"

subsection \<open>normalize_features\<close>

definition row_norm :: "real list \<Rightarrow> real" where
  "row_norm r = sqrt (sum_list (map (\<lambda>x. x * x) r))"

text \<open>
  \<^verbatim>\<open>normalize(all_features_np, axis=1)\<close> divides each row by its L2 norm. Before
  dividing, sklearn replaces a norm below its threshold (ten machine epsilons of the
  array's float type, here the parameter \<open>eps\<close>) by one, so that such a row is divided
  by one; no norm makes it raise. Its input check rejects an array with no row or no
  column. The conversions to numpy and back keep the values.
\<close>

definition handle_zeros_in_scale :: "real \<Rightarrow> real \<Rightarrow> real" where
  "handle_zeros_in_scale eps scale = (if scale < eps then 1 else scale)"

definition normalize_row :: "real \<Rightarrow> real list \<Rightarrow> real list" where
  "normalize_row eps r = map (\<lambda>x. x / handle_zeros_in_scale eps (row_norm r)) r"

definition normalize :: "real \<Rightarrow> real tensor2 \<Rightarrow> error + real tensor2" where
  "normalize eps X =
     (if rows X = [] \<or> ncols X = 0 then Inl ValueError
      else Inr (X\<lparr>rows := map (normalize_row eps) (rows X)\<rparr>))"

definition normalize_features :: "real \<Rightarrow> real tensor2 \<Rightarrow> error + real tensor2" where
  "normalize_features eps all_features = normalize eps all_features"

subsection \<open>Library operations of the search\<close>

definition dot :: "real list \<Rightarrow> real list \<Rightarrow> real" where
  "dot q r = sum_list (map2 (*) q r)"

text \<open>\<^verbatim>\<open>torch.matmul(query_feature, all_features.T).squeeze(0)\<close> for a query of shape (1, D).\<close>

definition matmul :: "real list \<Rightarrow> real tensor2 \<Rightarrow> error + real list" where
  "matmul query_feature all_features =
     (if length query_feature \<noteq> ncols all_features then Inl MatmulShapeError
      else Inr (map (dot query_feature) (rows all_features)))"

text \<open>Reading a sequence at a list of positions; a position out of range raises.\<close>

definition gather :: "'a list \<Rightarrow> nat list \<Rightarrow> error + 'a list" where
  "gather xs idxs =
     (if \<forall>i \<in> set idxs. i < length xs then Inr (map ((!) xs) idxs) else Inl IndexError)"

text \<open>
  The contract of \<^verbatim>\<open>torch.topk(xs, k)\<close> for \<open>k \<le> length xs\<close>: \<open>k\<close> distinct
  positions of \<open>xs\<close>, their values in non-increasing order, and no position left out
  holds a larger value than a chosen one.
\<close>

definition topk_ok :: "('s::linorder) topk_fn \<Rightarrow> bool" where
  "topk_ok tk =
     (\<forall>xs k. k \<le> length xs \<longrightarrow>
        length (tk xs k) = k \<and> distinct (tk xs k) \<and>
        (\<forall>i \<in> set (tk xs k). i < length xs) \<and>
        sorted_wrt (\<ge>) (map ((!) xs) (tk xs k)) \<and>
        (\<forall>j < length xs. j \<notin> set (tk xs k) \<longrightarrow> (\<forall>i \<in> set (tk xs k). xs ! j \<le> xs ! i)))"

definition torch_topk :: "'s topk_fn \<Rightarrow> 's list \<Rightarrow> int \<Rightarrow> error + nat list" where
  "torch_topk tk xs k =
     (if k < 0 \<or> int (length xs) < k then Inl TopkRangeError else Inr (tk xs (nat k)))"

text \<open>
  A selection function that meets the contract: it sorts all positions by descending
  value with a stable sort and keeps the first \<open>k\<close>, so that ties go to the lower
  position.
\<close>

definition topk_from :: "nat list \<Rightarrow> real list \<Rightarrow> nat \<Rightarrow> nat list" where
  "topk_from ps xs k = take k (sort_key (\<lambda>i. - (xs ! i)) ps)"

definition topk_stable :: "real topk_fn" where
  "topk_stable xs k = topk_from [0..<length xs] xs k"

subsection \<open>find_compatible_items\<close>

text \<open>\<^verbatim>\<open>classes.index(cat)\<close>, called only for a member of the list.\<close>

fun list_index :: "'a list \<Rightarrow> 'a \<Rightarrow> nat" where
  "list_index [] x = 0"
| "list_index (y # ys) x = (if y = x then 0 else Suc (list_index ys x))"

definition no_valid_categories_msg :: string where
  "no_valid_categories_msg =
     ''No valid target categories found. Please check the category names and their cases.''"

definition cat_item_indices :: "int list \<Rightarrow> nat \<Rightarrow> nat list" where
  "cat_item_indices all_labels cat_idx =
     filter (\<lambda>i. all_labels ! i = int cat_idx) [0..<length all_labels]"

text \<open>
  Lines 123 to 126: the category's similarities, the top-k positions among them, and the
  store rows these positions stand for.
\<close>

definition topk_original_indices ::
  "'s topk_fn \<Rightarrow> 's list \<Rightarrow> nat list \<Rightarrow> int \<Rightarrow> error + nat list" where
  "topk_original_indices tk similarities cat_items top_k =
     (case gather similarities cat_items of
        Inl e \<Rightarrow> Inl e
      | Inr cat_similarities \<Rightarrow>
          (case torch_topk tk cat_similarities (min top_k (int (length cat_similarities))) of
             Inl e \<Rightarrow> Inl e
           | Inr topk_indices \<Rightarrow> gather cat_items topk_indices))"

text \<open>
  The loop of lines 118 to 128 over the resolved category indices. A category without
  items is skipped (\<^verbatim>\<open>continue\<close>); otherwise the paths of the selected rows are
  stored under the category's name, replacing an earlier entry of that name in place.
  An exception raised by one of the library calls ends the loop.
\<close>

fun category_loop ::
  "'s topk_fn \<Rightarrow> string list \<Rightarrow> 's list \<Rightarrow> int list \<Rightarrow> string list \<Rightarrow> int \<Rightarrow>
   nat list \<Rightarrow> compatibility \<Rightarrow> error + compatibility" where
  "category_loop tk cls similarities all_labels all_image_paths top_k [] compatibility = Inr compatibility"
| "category_loop tk cls similarities all_labels all_image_paths top_k (cat_idx # rest) compatibility =
     (if cat_item_indices all_labels cat_idx = []
      then category_loop tk cls similarities all_labels all_image_paths top_k rest compatibility
      else
        (case topk_original_indices tk similarities (cat_item_indices all_labels cat_idx) top_k of
           Inl e \<Rightarrow> Inl e
         | Inr orig \<Rightarrow>
             (case gather all_image_paths orig of
                Inl e \<Rightarrow> Inl e
              | Inr paths \<Rightarrow>
                  category_loop tk cls similarities all_labels all_image_paths top_k rest
                    (AList.update (cls ! cat_idx) paths compatibility))))"

text \<open>
  Lines 106 and 107: \<^verbatim>\<open>[classes.index(cat) for cat in target_categories if cat in classes]\<close>.
\<close>

definition target_indices_of :: "string list \<Rightarrow> string list \<Rightarrow> nat list" where
  "target_indices_of cls target_categories =
     map (list_index cls) (filter (\<lambda>cat. cat \<in> set cls) target_categories)"

text \<open>
  The function itself. With no valid category it warns and returns the empty dictionary
  (lines 109 to 112) before the similarities are computed (line 115). The default
  \<^verbatim>\<open>top_k=5\<close> is passed explicitly here.
\<close>

definition find_compatible_items ::
  "real topk_fn \<Rightarrow> real list \<Rightarrow> real tensor2 \<Rightarrow> int list \<Rightarrow> string list \<Rightarrow>
   string list \<Rightarrow> int \<Rightarrow> session \<Rightarrow> (error + compatibility) \<times> session" where
  "find_compatible_items tk query_feature all_features all_labels all_image_paths
     target_categories top_k s =
     (let target_indices = target_indices_of (classes s) target_categories in
      if target_indices = []
      then (Inr [], s\<lparr>ui := ui s @ [Warning no_valid_categories_msg]\<rparr>)
      else
        (case matmul query_feature all_features of
           Inl e \<Rightarrow> (Inl e, s)
         | Inr similarities \<Rightarrow>
             (category_loop tk (classes s) similarities all_labels all_image_paths top_k
                target_indices [], s)))"

subsection \<open>The two functions with the arithmetic left open\<close>

text \<open>
  \<^verbatim>\<open>find_compatible_items\<close> once more, line by line as above, with the product of line
  115 as the parameter \<open>mm\<close>: any function from the query and the store's features to
  an exception or the vector of similarities. The query, the features and the scores
  may be of any type; the scores carry the order \<^verbatim>\<open>torch.topk\<close> compares them by.
\<close>

definition find_compatible_items_with ::
  "('q \<Rightarrow> 'f \<Rightarrow> error + ('s::linorder) list) \<Rightarrow> 's topk_fn \<Rightarrow> 'q \<Rightarrow> 'f \<Rightarrow> int list \<Rightarrow>
   string list \<Rightarrow> string list \<Rightarrow> int \<Rightarrow> session \<Rightarrow> (error + compatibility) \<times> session" where
  "find_compatible_items_with mm tk query_feature all_features all_labels all_image_paths
     target_categories top_k s =
     (let target_indices = target_indices_of (classes s) target_categories in
      if target_indices = []
      then (Inr [], s\<lparr>ui := ui s @ [Warning no_valid_categories_msg]\<rparr>)
      else
        (case mm query_feature all_features of
           Inl e \<Rightarrow> (Inl e, s)
         | Inr similarities \<Rightarrow>
             (category_loop tk (classes s) similarities all_labels all_image_paths top_k
                target_indices [], s)))"



subsection \<open>The store of the specification's scenario\<close>

definition demo_features :: "real tensor2" where
  "demo_features = \<lparr>ncols = 2, rows = [[1, 0], [0, 1], [- 1, 0]]\<rparr>"

definition demo_labels :: "int list" where
  "demo_labels = [0, 0, 1]"

definition demo_paths :: "string list" where
  "demo_paths = [''a.jpg'', ''b.jpg'', ''c.jpg'']"

definition demo_session :: session where
  "demo_session = \<lparr>classes = [''tops'', ''pants''], ui = []\<rparr>"

text \<open>
  A store with four items of category \<open>tops\<close> that all score 0 against the query
  \<open>[1, 0]\<close>.
\<close>

definition four_tie_features :: "real tensor2" where
  "four_tie_features = \<lparr>ncols = 2, rows = [[0, 1], [0, - 1], [0, 1], [0, - 1]]\<rparr>"

definition four_tie_labels :: "int list" where
  "four_tie_labels = [0, 0, 0, 0]"

definition four_tie_paths :: "string list" where
  "four_tie_paths = [''a.jpg'', ''b.jpg'', ''c.jpg'', ''d.jpg'']"

text \<open>Rows of equal score come in ascending row order.\<close>

definition ties_ascending :: "'s list \<Rightarrow> nat list \<Rightarrow> bool" where
  "ties_ascending sims orig =
     (\<forall>a < length orig. \<forall>b < length orig.
        a < b \<and> sims ! (orig ! a) = sims ! (orig ! b) \<longrightarrow> orig ! a < orig ! b)"


text \<open>The squared L2 norm of a vector.\<close>

definition sumsq :: "real list \<Rightarrow> real" where
  "sumsq r = sum_list (map (\<lambda>x. x * x) r)"

text \<open>A store in which two items of one category have the same vector.\<close>

definition twin_features :: "real tensor2" where
  "twin_features = \<lparr>ncols = 2, rows = [[1, 0], [1, 0], [0, 1]]\<rparr>"

subsection \<open>The selection of torch's CPU kernel\<close>

text \<open>
  On a CPU tensor \<^verbatim>\<open>torch.topk(xs, k)\<close> (largest, sorted) pairs each value with its
  position and, when \<open>64 k \<le> n\<close>, runs \<^verbatim>\<open>std::partial_sort\<close> on the pairs;
  otherwise it runs \<^verbatim>\<open>std::nth_element\<close> for position \<open>k - 1\<close> and then
  \<^verbatim>\<open>std::sort\<close> on the first \<open>k - 1\<close> pairs. The positions of the first \<open>k\<close> pairs
  are the result. The comparison puts the larger value first and never looks at the
  position. The functions below follow the GNU C++ library's algorithms step by step, on
  a list for the array and indices for the iterators: insertion sort, the median-of-three
  partition, the binary heap, introselect and introsort with their depth limit
  \<open>2 lg n\<close>. None of them is stable, which is why equal scores do not keep their order.
\<close>

text \<open>The kernel's comparison of two (value, position) pairs.\<close>

definition topk_cmp :: "('s::linorder) \<times> nat \<Rightarrow> 's \<times> nat \<Rightarrow> bool" where
  "topk_cmp x y = (fst y < fst x)"

text \<open>Exchange of two array elements, and an operation applied to the range \<open>[first, stop)\<close>.\<close>

definition iter_swap :: "'a list \<Rightarrow> nat \<Rightarrow> nat \<Rightarrow> 'a list" where
  "iter_swap a i j = (a[i := a ! j])[j := a ! i]"

definition on_range :: "('a list \<Rightarrow> 'a list) \<Rightarrow> 'a list \<Rightarrow> nat \<Rightarrow> nat \<Rightarrow> 'a list" where
  "on_range f a first stop = take first a @ f (take (stop - first) (drop first a)) @ drop stop a"

text \<open>
  Insertion sort: an element moves left past the elements it beats; one that beats the
  first element goes to the front at once.
\<close>

definition unguarded_linear_insert :: "('a \<Rightarrow> 'a \<Rightarrow> bool) \<Rightarrow> 'a list \<Rightarrow> 'a \<Rightarrow> 'a list" where
  "unguarded_linear_insert cmp pre v =
     (let k = length (takeWhile (cmp v) (rev pre))
      in take (length pre - k) pre @ v # drop (length pre - k) pre)"

definition insertion_sort :: "('a \<Rightarrow> 'a \<Rightarrow> bool) \<Rightarrow> 'a list \<Rightarrow> 'a list" where
  "insertion_sort cmp xs =
     (case xs of
        [] \<Rightarrow> []
      | x # rest \<Rightarrow>
          foldl (\<lambda>pre v. if cmp v (hd pre) then v # pre
                             else unguarded_linear_insert cmp pre v) [x] rest)"

definition final_insertion_sort :: "('a \<Rightarrow> 'a \<Rightarrow> bool) \<Rightarrow> 'a list \<Rightarrow> 'a list" where
  "final_insertion_sort cmp xs =
     (if 16 < length xs
      then foldl (unguarded_linear_insert cmp) (insertion_sort cmp (take 16 xs)) (drop 16 xs)
      else insertion_sort cmp xs)"

text \<open>
  The partition around the median of three, the pivot being moved to the front of the
  range: the scan from the left skips elements that beat the pivot, the scan from the
  right those the pivot beats, and what the two scans stop at is exchanged.
\<close>

definition move_median_to_first ::
  "('a \<Rightarrow> 'a \<Rightarrow> bool) \<Rightarrow> 'a list \<Rightarrow> nat \<Rightarrow> nat \<Rightarrow> nat \<Rightarrow> nat \<Rightarrow> 'a list" where
  "move_median_to_first cmp a result ia ib ic =
     (if cmp (a ! ia) (a ! ib)
      then (if cmp (a ! ib) (a ! ic) then iter_swap a result ib
            else if cmp (a ! ia) (a ! ic) then iter_swap a result ic
            else iter_swap a result ia)
      else if cmp (a ! ia) (a ! ic) then iter_swap a result ia
      else if cmp (a ! ib) (a ! ic) then iter_swap a result ic
      else iter_swap a result ib)"

definition scan_up :: "('a \<Rightarrow> 'a \<Rightarrow> bool) \<Rightarrow> 'a list \<Rightarrow> 'a \<Rightarrow> nat \<Rightarrow> nat" where
  "scan_up cmp a pivot first = first + length (takeWhile (\<lambda>e. cmp e pivot) (drop first a))"

definition scan_down :: "('a \<Rightarrow> 'a \<Rightarrow> bool) \<Rightarrow> 'a list \<Rightarrow> 'a \<Rightarrow> nat \<Rightarrow> nat" where
  "scan_down cmp a pivot stop = stop - length (takeWhile (\<lambda>e. cmp pivot e) (rev (take (Suc stop) a)))"

function unguarded_partition ::
  "('a \<Rightarrow> 'a \<Rightarrow> bool) \<Rightarrow> 'a \<Rightarrow> 'a list \<Rightarrow> nat \<Rightarrow> nat \<Rightarrow> 'a list \<times> nat" where
  "unguarded_partition cmp pivot a first stop =
     (let f = scan_up cmp a pivot first; l = scan_down cmp a pivot (stop - 1)
      in if f < l then unguarded_partition cmp pivot (iter_swap a f l) (Suc f) l else (a, f))"
  by pat_completeness auto
termination
proof (relation "measure (\<lambda>(cmp, pivot, a, first, stop). stop - first)")
  show "wf (measure (\<lambda>(cmp, pivot, a, first, stop). stop - first))" by simp
next
  fix cmp :: "'a \<Rightarrow> 'a \<Rightarrow> bool" and pivot a first stop f l
  assume f: "f = scan_up cmp a pivot first" and l: "l = scan_down cmp a pivot (stop - 1)"
    and fl: "f < l"
  have "first \<le> f" by (simp add: f scan_up_def)
  moreover have "l \<le> stop - 1" by (simp add: l scan_down_def)
  ultimately have "l - Suc f < stop - first" using fl by arith
  then show "((cmp, pivot, iter_swap a f l, Suc f, l), (cmp, pivot, a, first, stop))
      \<in> measure (\<lambda>(cmp, pivot, a, first, stop). stop - first)" by simp
qed

definition unguarded_partition_pivot ::
  "('a \<Rightarrow> 'a \<Rightarrow> bool) \<Rightarrow> 'a list \<Rightarrow> nat \<Rightarrow> nat \<Rightarrow> 'a list \<times> nat" where
  "unguarded_partition_pivot cmp a first stop =
     (let mid = first + (stop - first) div 2;
          a1 = move_median_to_first cmp a first (first + 1) mid (stop - 1)
      in unguarded_partition cmp (a1 ! first) a1 (first + 1) stop)"

text \<open>The binary heap: \<^verbatim>\<open>__adjust_heap\<close> with \<^verbatim>\<open>__push_heap\<close>, building, popping, selecting and sorting.\<close>

function sift_down ::
  "('a \<Rightarrow> 'a \<Rightarrow> bool) \<Rightarrow> 'a list \<Rightarrow> nat \<Rightarrow> nat \<Rightarrow> nat \<Rightarrow> 'a list \<times> nat" where
  "sift_down cmp a first len hole =
     (if hole < (len - 1) div 2
      then (let c = 2 * (hole + 1);
                c' = (if cmp (a ! (first + c)) (a ! (first + (c - 1))) then c - 1 else c)
            in sift_down cmp (a[first + hole := a ! (first + c')]) first len c')
      else (a, hole))"
  by pat_completeness auto
termination
  by (relation "measure (\<lambda>(cmp, a, first, len, hole). (len - 1) div 2 - hole)") auto

function push_heap ::
  "('a \<Rightarrow> 'a \<Rightarrow> bool) \<Rightarrow> 'a list \<Rightarrow> nat \<Rightarrow> nat \<Rightarrow> nat \<Rightarrow> 'a \<Rightarrow> 'a list" where
  "push_heap cmp a first hole top_index v =
     (let parent = (hole - 1) div 2
      in if top_index < hole \<and> cmp (a ! (first + parent)) v
         then push_heap cmp (a[first + hole := a ! (first + parent)]) first parent top_index v
         else a[first + hole := v])"
  by pat_completeness auto
termination
  by (relation "measure (\<lambda>(cmp, a, first, hole, top_index, v). hole)") auto

definition adjust_heap ::
  "('a \<Rightarrow> 'a \<Rightarrow> bool) \<Rightarrow> 'a list \<Rightarrow> nat \<Rightarrow> nat \<Rightarrow> nat \<Rightarrow> 'a \<Rightarrow> 'a list" where
  "adjust_heap cmp a first hole len v =
     (let (a1, h) = sift_down cmp a first len hole;
          (a2, h2) = (if even len \<and> h = (len - 2) div 2
                      then (a1[first + h := a1 ! (first + (2 * (h + 1) - 1))], 2 * (h + 1) - 1)
                      else (a1, h))
      in push_heap cmp a2 first h2 hole v)"

fun make_heap_from ::
  "('a \<Rightarrow> 'a \<Rightarrow> bool) \<Rightarrow> 'a list \<Rightarrow> nat \<Rightarrow> nat \<Rightarrow> nat \<Rightarrow> 'a list" where
  "make_heap_from cmp a first len 0 = adjust_heap cmp a first 0 len (a ! first)"
| "make_heap_from cmp a first len (Suc p) =
     make_heap_from cmp (adjust_heap cmp a first (Suc p) len (a ! (first + Suc p))) first len p"

definition make_heap :: "('a \<Rightarrow> 'a \<Rightarrow> bool) \<Rightarrow> 'a list \<Rightarrow> nat \<Rightarrow> nat \<Rightarrow> 'a list" where
  "make_heap cmp a first stop =
     (if stop - first < 2 then a
      else make_heap_from cmp a first (stop - first) ((stop - first - 2) div 2))"

definition pop_heap ::
  "('a \<Rightarrow> 'a \<Rightarrow> bool) \<Rightarrow> 'a list \<Rightarrow> nat \<Rightarrow> nat \<Rightarrow> nat \<Rightarrow> 'a list" where
  "pop_heap cmp a first stop result =
     adjust_heap cmp (a[result := a ! first]) first 0 (stop - first) (a ! result)"

definition heap_select ::
  "('a \<Rightarrow> 'a \<Rightarrow> bool) \<Rightarrow> 'a list \<Rightarrow> nat \<Rightarrow> nat \<Rightarrow> nat \<Rightarrow> 'a list" where
  "heap_select cmp a first middle stop =
     foldl (\<lambda>a i. if cmp (a ! i) (a ! first) then pop_heap cmp a first middle i else a)
       (make_heap cmp a first middle) [middle..<stop]"

fun sort_heap :: "('a \<Rightarrow> 'a \<Rightarrow> bool) \<Rightarrow> 'a list \<Rightarrow> nat \<Rightarrow> nat \<Rightarrow> 'a list" where
  "sort_heap cmp a first 0 = a"
| "sort_heap cmp a first (Suc m) =
     (if 1 < Suc m then sort_heap cmp (pop_heap cmp a first (first + m) (first + m)) first m
      else a)"

definition std_partial_sort ::
  "('a \<Rightarrow> 'a \<Rightarrow> bool) \<Rightarrow> 'a list \<Rightarrow> nat \<Rightarrow> nat \<Rightarrow> nat \<Rightarrow> 'a list" where
  "std_partial_sort cmp a first middle stop =
     sort_heap cmp (heap_select cmp a first middle stop) first (middle - first)"

text \<open>The integer binary logarithm, introselect and introsort.\<close>

fun lg :: "nat \<Rightarrow> nat" where
  "lg n = (if n < 2 then 0 else Suc (lg (n div 2)))"

declare lg.simps [simp del]

fun introselect ::
  "('a \<Rightarrow> 'a \<Rightarrow> bool) \<Rightarrow> nat \<Rightarrow> 'a list \<Rightarrow> nat \<Rightarrow> nat \<Rightarrow> nat \<Rightarrow> 'a list" where
  "introselect cmp 0 a first kth stop =
     (if 3 < stop - first then iter_swap (heap_select cmp a first (kth + 1) stop) first kth
      else on_range (insertion_sort cmp) a first stop)"
| "introselect cmp (Suc d) a first kth stop =
     (if 3 < stop - first
      then (let (a1, cut) = unguarded_partition_pivot cmp a first stop
            in if cut \<le> kth then introselect cmp d a1 cut kth stop
               else introselect cmp d a1 first kth cut)
      else on_range (insertion_sort cmp) a first stop)"

definition std_nth_element ::
  "('a \<Rightarrow> 'a \<Rightarrow> bool) \<Rightarrow> 'a list \<Rightarrow> nat \<Rightarrow> nat \<Rightarrow> nat \<Rightarrow> 'a list" where
  "std_nth_element cmp a first kth stop =
     (if first = stop \<or> kth = stop then a
      else introselect cmp (lg (stop - first) * 2) a first kth stop)"

fun introsort_loop ::
  "('a \<Rightarrow> 'a \<Rightarrow> bool) \<Rightarrow> nat \<Rightarrow> 'a list \<Rightarrow> nat \<Rightarrow> nat \<Rightarrow> 'a list" where
  "introsort_loop cmp 0 a first stop =
     (if 16 < stop - first then std_partial_sort cmp a first stop stop else a)"
| "introsort_loop cmp (Suc d) a first stop =
     (if 16 < stop - first
      then (let (a1, cut) = unguarded_partition_pivot cmp a first stop
            in introsort_loop cmp d (introsort_loop cmp d a1 cut stop) first cut)
      else a)"

definition std_sort :: "('a \<Rightarrow> 'a \<Rightarrow> bool) \<Rightarrow> 'a list \<Rightarrow> nat \<Rightarrow> nat \<Rightarrow> 'a list" where
  "std_sort cmp a first stop =
     (if first = stop then a
      else on_range (final_insertion_sort cmp)
             (introsort_loop cmp (lg (stop - first) * 2) a first stop) first stop)"

text \<open>The kernel itself.\<close>

definition topk_cpu :: "('s::linorder) list \<Rightarrow> nat \<Rightarrow> nat list" where
  "topk_cpu xs k =
     (if k = 0 then []
      else
        (let n = length xs;
             queue = zip xs [0..<n];
             sorted_queue =
               (if k * 64 \<le> n then std_partial_sort topk_cmp queue 0 k n
                else std_sort topk_cmp (std_nth_element topk_cmp queue 0 (k - 1) n) 0 (k - 1))
         in map snd (take k sorted_queue)))"

section \<open>Auxiliary facts\<close>

subsection \<open>The stable selection meets the contract\<close>

lemma topk_from_ok:
  assumes d: "distinct ps" and s: "set ps = {..<length xs}" and k: "k \<le> length xs"
  shows "length (topk_from ps xs k) = k"
    and "distinct (topk_from ps xs k)"
    and "\<forall>i \<in> set (topk_from ps xs k). i < length xs"
    and "sorted_wrt (\<ge>) (map ((!) xs) (topk_from ps xs k))"
    and "\<forall>j < length xs. j \<notin> set (topk_from ps xs k) \<longrightarrow>
           (\<forall>i \<in> set (topk_from ps xs k). xs ! j \<le> xs ! i)"
proof -
  let ?f = "\<lambda>i. - (xs ! i)"
  let ?srt = "sort_key ?f ps"
  have "card (set ps) = length xs" using s by simp
  then have len: "length ps = length xs"
    using d by (simp add: distinct_card)
  show "length (topk_from ps xs k) = k"
    using k len by (simp add: topk_from_def)
  show "distinct (topk_from ps xs k)"
    using d by (simp add: topk_from_def)
  show "\<forall>i \<in> set (topk_from ps xs k). i < length xs"
  proof
    fix i assume "i \<in> set (topk_from ps xs k)"
    then have "i \<in> set ?srt" unfolding topk_from_def by (rule in_set_takeD)
    then show "i < length xs" using s by simp
  qed
  have srt: "sorted (map ?f ?srt)"
    by (rule sorted_sort_key)
  have "map ?f ?srt = map ?f (take k ?srt) @ map ?f (drop k ?srt)"
    by (simp only: map_append[symmetric] append_take_drop_id)
  with srt have ap: "sorted (map ?f (take k ?srt) @ map ?f (drop k ?srt))"
    by simp
  from ap have ab: "sorted (map ?f (take k ?srt)) \<and> sorted (map ?f (drop k ?srt)) \<and>
      (\<forall>x \<in> set (map ?f (take k ?srt)). \<forall>y \<in> set (map ?f (drop k ?srt)). x \<le> y)"
    by (rule iffD1[OF sorted_append])
  from ab have a: "sorted (map ?f (take k ?srt))" by (rule conjunct1)
  from ab have b: "\<forall>x \<in> set (map ?f (take k ?srt)). \<forall>y \<in> set (map ?f (drop k ?srt)). x \<le> y"
    by (intro conjunct2[OF conjunct2[OF ab]])
  from a have "sorted_wrt (\<lambda>i j. ?f i \<le> ?f j) (take k ?srt)"
    by (simp only: sorted_map)
  then have "sorted_wrt (\<lambda>i j. xs ! i \<ge> xs ! j) (take k ?srt)"
    by simp
  then show "sorted_wrt (\<ge>) (map ((!) xs) (topk_from ps xs k))"
    by (simp add: topk_from_def sorted_wrt_map)
  show "\<forall>j < length xs. j \<notin> set (topk_from ps xs k) \<longrightarrow>
           (\<forall>i \<in> set (topk_from ps xs k). xs ! j \<le> xs ! i)"
  proof (intro allI impI ballI)
    fix j i
    assume j: "j < length xs" and nj: "j \<notin> set (topk_from ps xs k)"
      and i: "i \<in> set (topk_from ps xs k)"
    have "j \<in> set ?srt" using j s by simp
    then have "j \<in> set (take k ?srt @ drop k ?srt)"
      by (simp only: append_take_drop_id)
    then have "j \<in> set (take k ?srt) \<or> j \<in> set (drop k ?srt)"
      by (simp only: set_append Un_iff)
    with nj have jd: "j \<in> set (drop k ?srt)" by (simp add: topk_from_def)
    from i have it: "i \<in> set (take k ?srt)" by (simp add: topk_from_def)
    from b it jd have "?f i \<le> ?f j" by simp
    then show "xs ! j \<le> xs ! i" by simp
  qed
qed

lemma upt_set_lessThan: "set [0..<n] = {..<n}"
  by auto

lemma topk_ok_stable: "topk_ok topk_stable"
  unfolding topk_ok_def topk_stable_def
  using topk_from_ok[OF distinct_upt upt_set_lessThan] by blast

subsection \<open>What an entry of the result is made of\<close>

lemma gather_Inr:
  "gather xs idxs = Inr ys \<Longrightarrow> ys = map ((!) xs) idxs \<and> (\<forall>i \<in> set idxs. i < length xs)"
  by (auto simp: gather_def split: if_splits)

lemma gather_ok: "\<forall>i \<in> set idxs. i < length xs \<Longrightarrow> gather xs idxs = Inr (map ((!) xs) idxs)"
  by (simp add: gather_def)

lemma list_index_nth: "x \<in> set xs \<Longrightarrow> list_index xs x < length xs \<and> xs ! list_index xs x = x"
  by (induction xs) auto

lemma cat_item_indices_props:
  "distinct (cat_item_indices ls c)"
  "set (cat_item_indices ls c) = {i. i < length ls \<and> ls ! i = int c}"
  by (auto simp: cat_item_indices_def)

lemma topk_original_indices_Inr:
  assumes r: "topk_original_indices tk sims cii top_k = Inr orig"
  shows "0 \<le> top_k \<and> (\<forall>i \<in> set cii. i < length sims) \<and>
         orig = map ((!) cii) (tk (map ((!) sims) cii) (nat (min top_k (int (length cii))))) \<and>
         (\<forall>p \<in> set (tk (map ((!) sims) cii) (nat (min top_k (int (length cii))))). p < length cii)"
proof -
  from r obtain cs where g: "gather sims cii = Inr cs"
    by (auto simp: topk_original_indices_def split: sum.splits)
  from gather_Inr[OF g] have cs: "cs = map ((!) sims) cii" and b: "\<forall>i \<in> set cii. i < length sims"
    by blast+
  from r g obtain ti where t: "torch_topk tk cs (min top_k (int (length cs))) = Inr ti"
    and g2: "gather cii ti = Inr orig"
    by (auto simp: topk_original_indices_def split: sum.splits)
  from t have nn: "0 \<le> min top_k (int (length cs))" and ti: "ti = tk cs (nat (min top_k (int (length cs))))"
    by (auto simp: torch_topk_def split: if_splits)
  from nn have "0 \<le> top_k" by simp
  moreover from gather_Inr[OF g2] have "orig = map ((!) cii) ti" "\<forall>p \<in> set ti. p < length cii"
    by blast+
  ultimately show ?thesis using b cs ti by simp
qed

lemma topk_original_indices_props:
  assumes ok: "topk_ok tk" and r: "topk_original_indices tk sims cii top_k = Inr orig"
    and d: "distinct cii"
  shows "int (length orig) = min top_k (int (length cii))"
    and "distinct orig"
    and "set orig \<subseteq> set cii"
    and "sorted_wrt (\<ge>) (map ((!) sims) orig)"
    and "\<forall>j \<in> set cii. j \<notin> set orig \<longrightarrow> (\<forall>i \<in> set orig. sims ! j \<le> sims ! i)"
proof -
  let ?cs = "map ((!) sims) cii"
  let ?k = "nat (min top_k (int (length cii)))"
  let ?ti = "tk ?cs ?k"
  from topk_original_indices_Inr[OF r]
  have nn: "0 \<le> top_k" and orig: "orig = map ((!) cii) ?ti" and pb: "\<forall>p \<in> set ?ti. p < length cii"
    by blast+
  have k: "?k \<le> length ?cs" by simp
  from ok k have c1: "length ?ti = ?k" and c2: "distinct ?ti"
    and c4: "sorted_wrt (\<ge>) (map ((!) ?cs) ?ti)"
    and c5: "\<forall>j < length ?cs. j \<notin> set ?ti \<longrightarrow> (\<forall>i \<in> set ?ti. ?cs ! j \<le> ?cs ! i)"
    unfolding topk_ok_def by blast+
  show "int (length orig) = min top_k (int (length cii))"
    using c1 nn by (simp add: orig)
  have inj: "inj_on ((!) cii) (set ?ti)"
    using pb d by (auto simp: inj_on_def nth_eq_iff_index_eq)
  show "distinct orig"
    using c2 inj by (simp add: orig distinct_map)
  show "set orig \<subseteq> set cii"
    using pb by (auto simp: orig)
  have eq: "map ((!) sims) orig = map ((!) ?cs) ?ti"
    using pb by (simp add: orig)
  show "sorted_wrt (\<ge>) (map ((!) sims) orig)"
    using c4 by (simp only: eq)
  show "\<forall>j \<in> set cii. j \<notin> set orig \<longrightarrow> (\<forall>i \<in> set orig. sims ! j \<le> sims ! i)"
  proof (intro ballI impI)
    fix j i assume j: "j \<in> set cii" and nj: "j \<notin> set orig" and i: "i \<in> set orig"
    from j obtain p where p: "p < length cii" "cii ! p = j" by (auto simp: in_set_conv_nth)
    from i obtain q where q: "q \<in> set ?ti" "i = cii ! q" by (auto simp: orig)
    have np: "p \<notin> set ?ti" using nj p by (auto simp: orig)
    have pl: "p < length ?cs" using p(1) by simp
    have ql: "q < length cii" using pb q(1) by blast
    from c5 pl np q(1) have "?cs ! p \<le> ?cs ! q" by blast
    moreover have "?cs ! p = sims ! j" using p by simp
    moreover have "?cs ! q = sims ! i" using ql q(2) by simp
    ultimately show "sims ! j \<le> sims ! i" by simp
  qed
qed

lemma category_loop_entry:
  "category_loop tk cls sims labels paths top_k tis acc = Inr r \<Longrightarrow> map_of r c = Some ps \<Longrightarrow>
   map_of acc c = Some ps \<or>
   (\<exists>ci \<in> set tis. cls ! ci = c \<and> cat_item_indices labels ci \<noteq> [] \<and>
      (\<exists>orig. topk_original_indices tk sims (cat_item_indices labels ci) top_k = Inr orig \<and>
              gather paths orig = Inr ps))"
proof (induction tis arbitrary: acc)
  case Nil
  then show ?case by simp
next
  case (Cons ci rest)
  show ?case
  proof (cases "cat_item_indices labels ci = []")
    case True
    with Cons.prems have "category_loop tk cls sims labels paths top_k rest acc = Inr r" by simp
    from Cons.IH[OF this Cons.prems(2)] show ?thesis by auto
  next
    case False
    with Cons.prems(1) obtain orig pths where
      o: "topk_original_indices tk sims (cat_item_indices labels ci) top_k = Inr orig"
      and g: "gather paths orig = Inr pths"
      and l: "category_loop tk cls sims labels paths top_k rest (AList.update (cls ! ci) pths acc) = Inr r"
      by (auto split: sum.splits)
    from Cons.IH[OF l Cons.prems(2)] show ?thesis
    proof
      assume "map_of (AList.update (cls ! ci) pths acc) c = Some ps"
      then have "(cls ! ci = c \<and> pths = ps) \<or> map_of acc c = Some ps"
        by (auto simp: update_conv' split: if_splits)
      then show ?thesis using False o g by auto
    next
      assume "\<exists>ci \<in> set rest. cls ! ci = c \<and> cat_item_indices labels ci \<noteq> [] \<and>
        (\<exists>orig. topk_original_indices tk sims (cat_item_indices labels ci) top_k = Inr orig \<and>
              gather paths orig = Inr ps)"
      then show ?thesis by auto
    qed
  qed
qed

lemma target_indices_of_mem:
  "ci \<in> set (target_indices_of cls cats) \<Longrightarrow>
   \<exists>cat \<in> set cats. cat \<in> set cls \<and> ci = list_index cls cat \<and> cls ! ci = cat"
  by (auto simp: target_indices_of_def list_index_nth)

lemma find_compatible_items_entry:
  assumes f: "find_compatible_items tk q feats labels paths cats top_k s = (Inr r, s')"
    and m: "map_of r c = Some ps"
  shows "c \<in> set cats \<and> c \<in> set (classes s) \<and> s' = s \<and>
    (\<exists>sims orig. matmul q feats = Inr sims \<and>
       cat_item_indices labels (list_index (classes s) c) \<noteq> [] \<and>
       topk_original_indices tk sims (cat_item_indices labels (list_index (classes s) c)) top_k = Inr orig \<and>
       gather paths orig = Inr ps)"
proof -
  let ?tis = "target_indices_of (classes s) cats"
  have ne: "?tis \<noteq> []"
  proof
    assume "?tis = []"
    with f have "r = []" by (simp add: find_compatible_items_def)
    with m show False by simp
  qed
  from f ne have f2: "(case matmul q feats of Inl e \<Rightarrow> (Inl e, s)
      | Inr sims \<Rightarrow> (category_loop tk (classes s) sims labels paths top_k ?tis [], s)) = (Inr r, s')"
    by (simp add: find_compatible_items_def Let_def)
  show ?thesis
  proof (cases "matmul q feats")
    case (Inl e)
    with f2 have "(Inl e, s) = (Inr r, s')" by (simp only: sum.case)
    then show ?thesis by simp
  next
    case (Inr sims)
    with f2 have "(category_loop tk (classes s) sims labels paths top_k ?tis [], s) = (Inr r, s')"
      by (simp only: sum.case)
    then have ls: "category_loop tk (classes s) sims labels paths top_k ?tis [] = Inr r \<and> s = s'"
      by (rule iffD1[OF prod.inject])
    from ls have l: "category_loop tk (classes s) sims labels paths top_k ?tis [] = Inr r"
      by (rule conjunct1)
    from ls have s: "s' = s" by (rule conjunct2[THEN sym])
    from category_loop_entry[OF l m] have "\<exists>ci \<in> set ?tis. classes s ! ci = c \<and>
       cat_item_indices labels ci \<noteq> [] \<and>
        (\<exists>orig. topk_original_indices tk sims (cat_item_indices labels ci) top_k = Inr orig \<and>
              gather paths orig = Inr ps)"
      by simp
    then obtain ci orig where
      ci: "ci \<in> set ?tis" "classes s ! ci = c" "cat_item_indices labels ci \<noteq> []"
      "topk_original_indices tk sims (cat_item_indices labels ci) top_k = Inr orig"
      "gather paths orig = Inr ps"
      by blast
    from target_indices_of_mem[OF ci(1)] ci(2) have c: "c \<in> set cats" "c \<in> set (classes s)"
      "ci = list_index (classes s) c" by auto
    from ci(3,4,5) c(3) Inr have "\<exists>sims orig. matmul q feats = Inr sims \<and>
       cat_item_indices labels (list_index (classes s) c) \<noteq> [] \<and>
       topk_original_indices tk sims (cat_item_indices labels (list_index (classes s) c)) top_k = Inr orig \<and>
       gather paths orig = Inr ps" by blast
    with c(1,2) s show ?thesis by blast
  qed
qed


subsection \<open>Evaluations on the scenario store\<close>

lemmas demo_defs = find_compatible_items_def target_indices_of_def demo_session_def
  demo_features_def demo_labels_def demo_paths_def matmul_def dot_def
  cat_item_indices_def topk_original_indices_def gather_def torch_topk_def topk_stable_def
  topk_from_def

lemma demo_tops:
  "find_compatible_items topk_stable [1, 0] demo_features demo_labels demo_paths [''tops''] 5
     demo_session = (Inr [(''tops'', [''a.jpg'', ''b.jpg''])], demo_session)"
  by (simp add: demo_defs)

lemma demo_tops_other_query:
  "find_compatible_items topk_stable [0, - 1] demo_features demo_labels demo_paths [''tops''] 5
     demo_session = (Inr [(''tops'', [''a.jpg'', ''b.jpg''])], demo_session)"
  by (simp add: demo_defs)

lemma demo_shoes:
  "find_compatible_items topk_stable [1, 0] demo_features demo_labels demo_paths [''shoes''] 5
     demo_session =
   (Inr [], demo_session\<lparr>ui := [Warning no_valid_categories_msg]\<rparr>)"
  by (simp add: demo_defs)

lemma demo_short_query_shoes:
  "find_compatible_items topk_stable [1] demo_features demo_labels demo_paths [''shoes''] 5
     demo_session =
   (Inr [], demo_session\<lparr>ui := [Warning no_valid_categories_msg]\<rparr>)"
  by (simp add: demo_defs)

subsection \<open>The two paths through the function\<close>

lemma target_indices_of_empty:
  "target_indices_of cls cats = [] \<longleftrightarrow> set cats \<inter> set cls = {}"
  by (auto simp: target_indices_of_def filter_empty_conv)

lemma find_compatible_items_no_valid:
  assumes "set target_categories \<inter> set (classes s) = {}"
  shows "find_compatible_items tk query_feature all_features all_labels all_image_paths
           target_categories top_k s =
         (Inr [], s\<lparr>ui := ui s @ [Warning no_valid_categories_msg]\<rparr>)"
  using assms by (simp add: find_compatible_items_def target_indices_of_empty)

lemma find_compatible_items_valid:
  assumes "set target_categories \<inter> set (classes s) \<noteq> {}"
  shows "find_compatible_items tk query_feature all_features all_labels all_image_paths
           target_categories top_k s =
         (case matmul query_feature all_features of
            Inl e \<Rightarrow> (Inl e, s)
          | Inr similarities \<Rightarrow>
              (category_loop tk (classes s) similarities all_labels all_image_paths top_k
                 (target_indices_of (classes s) target_categories) [], s))"
  using assms by (simp add: find_compatible_items_def target_indices_of_empty)

subsection \<open>Normalisation of one row\<close>

lemma sumsq_nonneg: "0 \<le> sumsq r"
  unfolding sumsq_def by (induction r) simp_all

lemma row_norm_sumsq: "row_norm r = sqrt (sumsq r)"
  by (simp add: row_norm_def sumsq_def)

lemma sumsq_zero_all: "sumsq r = 0 \<Longrightarrow> \<forall>x \<in> set r. x = 0"
proof (induction r)
  case Nil
  then show ?case by simp
next
  case (Cons a r)
  have "0 \<le> a * a" by simp
  moreover have "0 \<le> sumsq r" by (rule sumsq_nonneg)
  moreover from Cons.prems have "a * a + sumsq r = 0" by (simp add: sumsq_def)
  ultimately have "a * a = 0" "sumsq r = 0" by linarith+
  with Cons.IH show ?case by simp
qed

lemma dot_zero_row: "\<forall>x \<in> set r. x = 0 \<Longrightarrow> dot q r = 0"
proof (induction r arbitrary: q)
  case Nil
  then show ?case by (simp add: dot_def)
next
  case (Cons a r)
  then have "dot q' r = 0" for q' by simp
  then show ?case using Cons.prems by (cases q) (simp_all add: dot_def)
qed


lemma normalize_row_small: "row_norm r < eps \<Longrightarrow> normalize_row eps r = r"
  by (simp add: normalize_row_def handle_zeros_in_scale_def)

lemma normalize_features_Inr:
  "normalize_features eps af = Inr nf \<Longrightarrow>
   rows af \<noteq> [] \<and> ncols af \<noteq> 0 \<and> ncols nf = ncols af \<and>
   rows nf = map (normalize_row eps) (rows af)"
  by (auto simp: normalize_features_def normalize_def split: if_splits)

lemma normalize_features_ok:
  "rows af \<noteq> [] \<Longrightarrow> ncols af \<noteq> 0 \<Longrightarrow>
   normalize_features eps af = Inr (af\<lparr>rows := map (normalize_row eps) (rows af)\<rparr>)"
  by (simp add: normalize_features_def normalize_def)

lemma sqrt_25: "sqrt 25 = 5"
proof -
  have "sqrt 25 = sqrt (5\<^sup>2)" by simp
  also have "\<dots> = 5" by (simp only: real_sqrt_abs)
  finally show ?thesis .
qed

lemma row_norm_3_4: "row_norm [3, 4] = 5"
  by (simp add: row_norm_def sqrt_25)

lemma row_norm_0_0: "row_norm [0, 0] = 0"
  by (simp add: row_norm_def)

lemma normalize_zero_and_3_4:
  "normalize_features (10 / 2 ^ 23) \<lparr>ncols = 2, rows = [[0, 0], [3, 4]]\<rparr> =
   Inr \<lparr>ncols = 2, rows = [[0, 0], [3 / 5, 4 / 5]]\<rparr>"
  by (simp add: normalize_features_def normalize_def normalize_row_def handle_zeros_in_scale_def
      row_norm_3_4 row_norm_0_0)

subsection \<open>When the loop succeeds\<close>

lemma topk_original_indices_total:
  assumes ok: "topk_ok tk" and b: "\<forall>i \<in> set cii. i < length sims" and k: "0 \<le> top_k"
  shows "\<exists>orig. topk_original_indices tk sims cii top_k = Inr orig"
proof -
  let ?cs = "map ((!) sims) cii"
  let ?k = "nat (min top_k (int (length ?cs)))"
  have g: "gather sims cii = Inr ?cs" using b by (rule gather_ok)
  have t: "torch_topk tk ?cs (min top_k (int (length ?cs))) = Inr (tk ?cs ?k)"
    using k by (simp add: torch_topk_def)
  have "?k \<le> length ?cs" by simp
  with ok have "\<forall>p \<in> set (tk ?cs ?k). p < length ?cs"
    unfolding topk_ok_def by blast
  then have "\<forall>p \<in> set (tk ?cs ?k). p < length cii" by simp
  then have "gather cii (tk ?cs ?k) = Inr (map ((!) cii) (tk ?cs ?k))" by (rule gather_ok)
  with g t show ?thesis by (simp add: topk_original_indices_def)
qed

lemma category_loop_total:
  assumes ok: "topk_ok tk" and k: "0 \<le> top_k"
    and ls: "length labels \<le> length sims" and lp: "length labels \<le> length paths"
  shows "\<exists>r. category_loop tk cls sims labels paths top_k tis acc = Inr r"
proof (induction tis arbitrary: acc)
  case Nil
  show ?case by simp
next
  case (Cons ci rest)
  let ?cii = "cat_item_indices labels ci"
  show ?case
  proof (cases "?cii = []")
    case True
    with Cons.IH[of acc] show ?thesis by simp
  next
    case False
    have b: "\<forall>i \<in> set ?cii. i < length labels" by (simp add: cat_item_indices_props(2))
    with ls have "\<forall>i \<in> set ?cii. i < length sims" by auto
    from topk_original_indices_total[OF ok this k] obtain orig
      where o: "topk_original_indices tk sims ?cii top_k = Inr orig" by blast
    have sub: "set orig \<subseteq> set ?cii"
      by (rule topk_original_indices_props(3)[OF ok o cat_item_indices_props(1)])
    have "\<forall>i \<in> set orig. i < length paths"
    proof
      fix i assume "i \<in> set orig"
      with sub have "i \<in> set ?cii" by blast
      with b have "i < length labels" by blast
      with lp show "i < length paths" by simp
    qed
    then have g: "gather paths orig = Inr (map ((!) paths) orig)" by (rule gather_ok)
    from Cons.IH[of "AList.update (cls ! ci) (map ((!) paths) orig) acc"] False o g
    show ?thesis by simp
  qed
qed

lemma category_loop_dom:
  "category_loop tk cls sims labels paths top_k tis acc = Inr r \<Longrightarrow>
   map_of acc key \<noteq> None \<or>
     (\<exists>ci \<in> set tis. cls ! ci = key \<and> cat_item_indices labels ci \<noteq> []) \<Longrightarrow>
   map_of r key \<noteq> None"
proof (induction tis arbitrary: acc)
  case Nil
  then show ?case by simp
next
  case (Cons ci rest)
  show ?case
  proof (cases "cat_item_indices labels ci = []")
    case True
    with Cons.prems(1) have l: "category_loop tk cls sims labels paths top_k rest acc = Inr r"
      by simp
    from Cons.prems(2) True have "map_of acc key \<noteq> None \<or>
       (\<exists>ci \<in> set rest. cls ! ci = key \<and> cat_item_indices labels ci \<noteq> [])" by auto
    with l show ?thesis by (rule Cons.IH)
  next
    case False
    with Cons.prems(1) obtain orig pths where
      l: "category_loop tk cls sims labels paths top_k rest (AList.update (cls ! ci) pths acc) = Inr r"
      by (auto split: sum.splits)
    from Cons.prems(2) have "map_of (AList.update (cls ! ci) pths acc) key \<noteq> None \<or>
       (\<exists>ci \<in> set rest. cls ! ci = key \<and> cat_item_indices labels ci \<noteq> [])"
      by (auto simp: update_conv')
    with l show ?thesis by (rule Cons.IH)
  qed
qed

lemma target_indices_of_member:
  "c \<in> set cats \<Longrightarrow> c \<in> set cls \<Longrightarrow> list_index cls c \<in> set (target_indices_of cls cats)"
  by (simp add: target_indices_of_def)


lemma twin_tops:
  "find_compatible_items topk_stable [1, 0] twin_features demo_labels demo_paths [''tops''] 5
     demo_session = (Inr [(''tops'', [''a.jpg'', ''b.jpg''])], demo_session)"
  by (simp add: demo_defs twin_features_def)

lemma row_norm_axis: "row_norm [1, 0] = 1" "row_norm [0, 1] = 1" "row_norm [- 1, 0] = 1"
  by (simp_all add: row_norm_def)

subsection \<open>The function with the product left open\<close>

lemma find_compatible_items_as_with:
  "find_compatible_items tk query_feature all_features all_labels all_image_paths
     target_categories top_k s =
   find_compatible_items_with matmul tk query_feature all_features all_labels all_image_paths
     target_categories top_k s"
  by (simp add: find_compatible_items_def find_compatible_items_with_def)

lemma find_compatible_items_with_valid:
  assumes "set target_categories \<inter> set (classes s) \<noteq> {}"
  shows "find_compatible_items_with mm tk query_feature all_features all_labels all_image_paths
           target_categories top_k s =
         (case mm query_feature all_features of
            Inl e \<Rightarrow> (Inl e, s)
          | Inr similarities \<Rightarrow>
              (category_loop tk (classes s) similarities all_labels all_image_paths top_k
                 (target_indices_of (classes s) target_categories) [], s))"
  using assms by (simp add: find_compatible_items_with_def target_indices_of_empty)

lemma find_compatible_items_with_entry:
  assumes f: "find_compatible_items_with mm tk q feats labels paths cats top_k s = (Inr r, s')"
    and m: "map_of r c = Some ps"
  shows "c \<in> set cats \<and> c \<in> set (classes s) \<and> s' = s \<and>
    (\<exists>sims orig. mm q feats = Inr sims \<and>
       cat_item_indices labels (list_index (classes s) c) \<noteq> [] \<and>
       topk_original_indices tk sims (cat_item_indices labels (list_index (classes s) c)) top_k = Inr orig \<and>
       gather paths orig = Inr ps)"
proof -
  let ?tis = "target_indices_of (classes s) cats"
  have ne: "?tis \<noteq> []"
  proof
    assume "?tis = []"
    with f have "r = []" by (simp add: find_compatible_items_with_def)
    with m show False by simp
  qed
  then have valid: "set cats \<inter> set (classes s) \<noteq> {}"
    by (simp add: target_indices_of_empty)
  note f2 = f[unfolded find_compatible_items_with_valid[OF valid]]
  show ?thesis
  proof (cases "mm q feats")
    case (Inl e)
    with f2 have "(Inl e, s) = (Inr r, s')" by (simp only: sum.case)
    then show ?thesis by simp
  next
    case (Inr sims)
    with f2 have "(category_loop tk (classes s) sims labels paths top_k ?tis [], s) = (Inr r, s')"
      by (simp only: sum.case)
    then have ls: "category_loop tk (classes s) sims labels paths top_k ?tis [] = Inr r \<and> s = s'"
      by (rule iffD1[OF prod.inject])
    from ls have l: "category_loop tk (classes s) sims labels paths top_k ?tis [] = Inr r"
      by (rule conjunct1)
    from ls have s: "s' = s" by (rule conjunct2[THEN sym])
    from category_loop_entry[OF l m] have "\<exists>ci \<in> set ?tis. classes s ! ci = c \<and>
       cat_item_indices labels ci \<noteq> [] \<and>
        (\<exists>orig. topk_original_indices tk sims (cat_item_indices labels ci) top_k = Inr orig \<and>
              gather paths orig = Inr ps)"
      by simp
    then obtain ci orig where
      ci: "ci \<in> set ?tis" "classes s ! ci = c" "cat_item_indices labels ci \<noteq> []"
      "topk_original_indices tk sims (cat_item_indices labels ci) top_k = Inr orig"
      "gather paths orig = Inr ps"
      by blast
    from target_indices_of_mem[OF ci(1)] ci(2) have c: "c \<in> set cats" "c \<in> set (classes s)"
      "ci = list_index (classes s) c" by auto
    from ci(3,4,5) c(3) Inr have "\<exists>sims orig. mm q feats = Inr sims \<and>
       cat_item_indices labels (list_index (classes s) c) \<noteq> [] \<and>
       topk_original_indices tk sims (cat_item_indices labels (list_index (classes s) c)) top_k = Inr orig \<and>
       gather paths orig = Inr ps" by blast
    with c(1,2) s show ?thesis by blast
  qed
qed

subsection \<open>The kernel on equal scores\<close>

lemma topk_cpu_four_equal: "topk_cpu [0, 0, 0, 0 :: real] 4 = [2, 3, 0, 1]"
  by code_simp

lemma topk_cpu_two_equal: "topk_cpu [0, 0 :: real] 2 = [0, 1]"
  by code_simp

lemma four_tie_matmul: "matmul [1, 0] four_tie_features = Inr [0, 0, 0, 0]"
  by (simp add: matmul_def dot_def four_tie_features_def)

lemma four_tie_rows:
  "topk_original_indices topk_cpu [0, 0, 0, 0 :: real]
     (cat_item_indices four_tie_labels (list_index (classes demo_session) ''tops'')) 5 =
   Inr [2, 3, 0, 1]"
  by (simp add: cat_item_indices_def four_tie_labels_def demo_session_def
      topk_original_indices_def gather_def torch_topk_def topk_cpu_four_equal)

lemma four_tie_tops:
  "find_compatible_items topk_cpu [1, 0] four_tie_features four_tie_labels four_tie_paths
     [''tops''] 5 demo_session =
   (Inr [(''tops'', [''c.jpg'', ''d.jpg'', ''a.jpg'', ''b.jpg''])], demo_session)"
  by (simp add: find_compatible_items_def target_indices_of_def four_tie_matmul
      cat_item_indices_def four_tie_labels_def four_tie_paths_def demo_session_def
      topk_original_indices_def gather_def torch_topk_def topk_cpu_four_equal)

lemma four_tie_not_ascending: "\<not> ties_ascending [0, 0, 0, 0 :: real] [2, 3, 0, 1]"
proof
  assume a: "ties_ascending [0, 0, 0, 0 :: real] [2, 3, 0, 1]"
  from a[unfolded ties_ascending_def, rule_format, of 1 2] show False by simp
qed

subsection \<open>Normalisation with the float operations left open\<close>




section \<open>The properties of the specification\<close>



text \<open>
  C10. Within one category's entry no store row occurs twice: the entry is the list of
  paths of the rows computed by lines 123 to 126, and these rows are pairwise distinct
  members of the category.
\<close>

theorem C10_distinct_rows:
  assumes ok: "topk_ok tk"
    and f: "find_compatible_items tk query_feature all_features all_labels all_image_paths
              target_categories top_k s = (Inr r, s')"
    and m: "map_of r c = Some ps"
  shows "\<exists>sims orig.
           matmul query_feature all_features = Inr sims \<and>
           topk_original_indices tk sims
             (cat_item_indices all_labels (list_index (classes s) c)) top_k = Inr orig \<and>
           ps = map ((!) all_image_paths) orig \<and>
           distinct orig \<and>
           (\<forall>i \<in> set orig. i < length all_labels \<and>
              all_labels ! i = int (list_index (classes s) c))"
proof -
  let ?cii = "cat_item_indices all_labels (list_index (classes s) c)"
  from find_compatible_items_entry[OF f m] obtain sims orig where
    mm: "matmul query_feature all_features = Inr sims"
    and o: "topk_original_indices tk sims ?cii top_k = Inr orig"
    and g: "gather all_image_paths orig = Inr ps"
    by blast
  from gather_Inr[OF g] have ps: "ps = map ((!) all_image_paths) orig" by simp
  have d: "distinct orig"
    by (rule topk_original_indices_props(2)[OF ok o cat_item_indices_props(1)])
  have "set orig \<subseteq> set ?cii"
    by (rule topk_original_indices_props(3)[OF ok o cat_item_indices_props(1)])
  then have "\<forall>i \<in> set orig. i < length all_labels \<and>
      all_labels ! i = int (list_index (classes s) c)"
    by (auto simp: cat_item_indices_props(2))
  with mm o ps d show ?thesis by blast
qed

theorem C10_distinct_rows_witness:
  "topk_ok topk_stable \<and>
   find_compatible_items topk_stable [1, 0] demo_features demo_labels demo_paths [''tops''] 5
     demo_session = (Inr [(''tops'', [''a.jpg'', ''b.jpg''])], demo_session) \<and>
   map_of [(''tops'', [''a.jpg'', ''b.jpg''])] ''tops'' = Some [''a.jpg'', ''b.jpg''] \<and>
   (\<exists>sims orig.
      matmul [1, 0] demo_features = Inr sims \<and>
      topk_original_indices topk_stable sims
        (cat_item_indices demo_labels (list_index (classes demo_session) ''tops'')) 5 = Inr orig \<and>
      [''a.jpg'', ''b.jpg''] = map ((!) demo_paths) orig \<and>
      distinct orig \<and>
      (\<forall>i \<in> set orig. i < length demo_labels \<and>
         demo_labels ! i = int (list_index (classes demo_session) ''tops'')))"
proof -
  have m: "map_of [(''tops'', [''a.jpg'', ''b.jpg''])] ''tops'' = Some [''a.jpg'', ''b.jpg'']"
    by simp
  from C10_distinct_rows[OF topk_ok_stable demo_tops m] topk_ok_stable demo_tops m
  show ?thesis by (intro conjI)
qed

text \<open>
  C2, as stated, fails in its second half: the program has no tie-breaking of its own,
  and the selection inside \<^verbatim>\<open>torch.topk\<close> is not stable. Four items of category
  \<open>tops\<close> that all score 0 against the query come back as rows 2, 3, 0, 1, that is
  \<open>c.jpg\<close>, \<open>d.jpg\<close>, \<open>a.jpg\<close>, \<open>b.jpg\<close>: equal scores, not in ascending row order.
\<close>

theorem C2_four_way_tie_counterexample:
  "find_compatible_items topk_cpu [1, 0] four_tie_features four_tie_labels four_tie_paths
     [''tops''] 5 demo_session =
     (Inr [(''tops'', [''c.jpg'', ''d.jpg'', ''a.jpg'', ''b.jpg''])], demo_session) \<and>
   matmul [1, 0] four_tie_features = Inr [0, 0, 0, 0] \<and>
   topk_original_indices topk_cpu [0, 0, 0, 0 :: real]
     (cat_item_indices four_tie_labels (list_index (classes demo_session) ''tops'')) 5 =
     Inr [2, 3, 0, 1] \<and>
   \<not> ties_ascending [0, 0, 0, 0 :: real] [2, 3, 0, 1]"
  using four_tie_tops four_tie_matmul four_tie_rows four_tie_not_ascending by (intro conjI)

text \<open>
  C2, amended. For every category of the result, the rows of the entry, read in order,
  have non-increasing similarity scores: the scores as line 115 computed them, whatever
  the arithmetic, compared the way \<^verbatim>\<open>torch.topk\<close> compares them. This holds for every
  selection function that meets the contract of \<^verbatim>\<open>torch.topk\<close>. Rows of equal score
  come in the order the selection leaves them in, which need not be ascending.
\<close>

theorem C2_scores_non_increasing:
  assumes ok: "topk_ok tk"
    and f: "find_compatible_items_with mm tk query_feature all_features all_labels
              all_image_paths target_categories top_k s = (Inr r, s')"
    and m: "map_of r c = Some ps"
  shows "\<exists>sims orig.
           mm query_feature all_features = Inr sims \<and>
           topk_original_indices tk sims
             (cat_item_indices all_labels (list_index (classes s) c)) top_k = Inr orig \<and>
           ps = map ((!) all_image_paths) orig \<and>
           sorted_wrt (\<ge>) (map ((!) sims) orig)"
proof -
  let ?cii = "cat_item_indices all_labels (list_index (classes s) c)"
  from find_compatible_items_with_entry[OF f m] obtain sims orig where
    mm: "mm query_feature all_features = Inr sims"
    and o: "topk_original_indices tk sims ?cii top_k = Inr orig"
    and g: "gather all_image_paths orig = Inr ps"
    by blast
  from gather_Inr[OF g] have ps: "ps = map ((!) all_image_paths) orig" by simp
  have "sorted_wrt (\<ge>) (map ((!) sims) orig)"
    by (rule topk_original_indices_props(4)[OF ok o cat_item_indices_props(1)])
  with mm o ps show ?thesis by blast
qed

theorem C2_scores_non_increasing_witness:
  "topk_ok topk_stable \<and>
   find_compatible_items_with matmul topk_stable [1, 0] demo_features demo_labels demo_paths
     [''tops''] 5 demo_session = (Inr [(''tops'', [''a.jpg'', ''b.jpg''])], demo_session) \<and>
   map_of [(''tops'', [''a.jpg'', ''b.jpg''])] ''tops'' = Some [''a.jpg'', ''b.jpg''] \<and>
   (\<exists>sims orig.
      matmul [1, 0] demo_features = Inr sims \<and>
      topk_original_indices topk_stable sims
        (cat_item_indices demo_labels (list_index (classes demo_session) ''tops'')) 5 = Inr orig \<and>
      [''a.jpg'', ''b.jpg''] = map ((!) demo_paths) orig \<and>
      sorted_wrt (\<ge>) (map ((!) sims) orig))"
proof -
  have m: "map_of [(''tops'', [''a.jpg'', ''b.jpg''])] ''tops'' = Some [''a.jpg'', ''b.jpg'']"
    by simp
  have d: "find_compatible_items_with matmul topk_stable [1, 0] demo_features demo_labels
      demo_paths [''tops''] 5 demo_session =
      (Inr [(''tops'', [''a.jpg'', ''b.jpg''])], demo_session)"
    using demo_tops by (simp only: find_compatible_items_as_with)
  from C2_scores_non_increasing[OF topk_ok_stable d m] topk_ok_stable d m
  show ?thesis by (intro conjI)
qed

text \<open>
  C1, as stated, fails: an entry is a list of item paths and holds no score. Two queries
  that give the items of category \<open>tops\<close> different scores (1 and 0 for the first query,
  0 and -1 for the second) get the very same result, so no score can be read off it.
\<close>

theorem C1_no_scores_counterexample:
  "fst (find_compatible_items topk_stable [1, 0] demo_features demo_labels demo_paths
          [''tops''] 5 demo_session) =
   fst (find_compatible_items topk_stable [0, - 1] demo_features demo_labels demo_paths
          [''tops''] 5 demo_session) \<and>
   fst (find_compatible_items topk_stable [1, 0] demo_features demo_labels demo_paths
          [''tops''] 5 demo_session) = Inr [(''tops'', [''a.jpg'', ''b.jpg''])] \<and>
   matmul [1, 0] demo_features = Inr [1, 0, - 1] \<and>
   matmul [0, - 1] demo_features = Inr [0, - 1, 0]"
  by (simp add: demo_tops demo_tops_other_query) (simp add: matmul_def dot_def demo_features_def)

text \<open>
  C1, amended. Each category entry of the result is an ordered sequence of item paths
  only: the paths, read from \<^verbatim>\<open>all_image_paths\<close>, of the store rows selected for the
  category, which is one of the requested names found in \<^verbatim>\<open>classes\<close>. The similarity
  scores are not part of the result.
\<close>

theorem C1_entries_are_paths:
  assumes f: "find_compatible_items tk query_feature all_features all_labels all_image_paths
              target_categories top_k s = (Inr r, s')"
    and m: "map_of r c = Some ps"
  shows "c \<in> set target_categories \<and> c \<in> set (classes s) \<and>
         (\<exists>sims orig.
            matmul query_feature all_features = Inr sims \<and>
            topk_original_indices tk sims
              (cat_item_indices all_labels (list_index (classes s) c)) top_k = Inr orig \<and>
            (\<forall>i \<in> set orig. i < length all_image_paths) \<and>
            ps = map ((!) all_image_paths) orig)"
proof -
  let ?cii = "cat_item_indices all_labels (list_index (classes s) c)"
  from find_compatible_items_entry[OF f m] obtain sims orig where
    c: "c \<in> set target_categories" "c \<in> set (classes s)"
    and mm: "matmul query_feature all_features = Inr sims"
    and o: "topk_original_indices tk sims ?cii top_k = Inr orig"
    and g: "gather all_image_paths orig = Inr ps"
    by blast
  from gather_Inr[OF g] have "ps = map ((!) all_image_paths) orig"
    "\<forall>i \<in> set orig. i < length all_image_paths" by simp_all
  with c mm o show ?thesis by blast
qed

theorem C1_entries_are_paths_witness:
  "find_compatible_items topk_stable [1, 0] demo_features demo_labels demo_paths [''tops''] 5
     demo_session = (Inr [(''tops'', [''a.jpg'', ''b.jpg''])], demo_session) \<and>
   map_of [(''tops'', [''a.jpg'', ''b.jpg''])] ''tops'' = Some [''a.jpg'', ''b.jpg''] \<and>
   ''tops'' \<in> set [''tops''] \<and> ''tops'' \<in> set (classes demo_session) \<and>
   (\<exists>sims orig.
      matmul [1, 0] demo_features = Inr sims \<and>
      topk_original_indices topk_stable sims
        (cat_item_indices demo_labels (list_index (classes demo_session) ''tops'')) 5 = Inr orig \<and>
      (\<forall>i \<in> set orig. i < length demo_paths) \<and>
      [''a.jpg'', ''b.jpg''] = map ((!) demo_paths) orig)"
proof -
  have m: "map_of [(''tops'', [''a.jpg'', ''b.jpg''])] ''tops'' = Some [''a.jpg'', ''b.jpg'']"
    by simp
  from C1_entries_are_paths[OF demo_tops m] demo_tops m
  show ?thesis by (intro conjI) blast+
qed

text \<open>
  C5. When no requested category name occurs in \<^verbatim>\<open>classes\<close>, the search returns the
  empty dictionary, raises nothing, and appends exactly one warning to the page.
\<close>

theorem C5_no_valid_category:
  assumes "set target_categories \<inter> set (classes s) = {}"
  shows "find_compatible_items tk query_feature all_features all_labels all_image_paths
           target_categories top_k s =
         (Inr [], s\<lparr>ui := ui s @ [Warning no_valid_categories_msg]\<rparr>)"
  using assms by (rule find_compatible_items_no_valid)

theorem C5_no_valid_category_witness:
  "set [''shoes''] \<inter> set (classes demo_session) = {} \<and>
   find_compatible_items topk_stable [1, 0] demo_features demo_labels demo_paths [''shoes''] 5
     demo_session =
   (Inr [], demo_session\<lparr>ui := ui demo_session @ [Warning no_valid_categories_msg]\<rparr>)"
proof -
  have h: "set [''shoes''] \<inter> set (classes demo_session) = {}"
    by (simp add: demo_session_def)
  from C5_no_valid_category[OF h] h show ?thesis by (intro conjI)
qed

text \<open>
  C6, as stated, fails: the check for valid categories comes before the product. A query
  of dimension 1 against a store of dimension 2, asking only for an unknown category,
  returns the empty result with a warning and no error.
\<close>

theorem C6_early_return_counterexample:
  "length [1::real] \<noteq> ncols demo_features \<and>
   find_compatible_items topk_stable [1] demo_features demo_labels demo_paths [''shoes''] 5
     demo_session =
   (Inr [], demo_session\<lparr>ui := [Warning no_valid_categories_msg]\<rparr>)"
  by (simp add: demo_short_query_shoes) (simp add: demo_features_def)

text \<open>
  C6, amended. If the query's dimension differs from the store's and at least one
  requested category name occurs in \<^verbatim>\<open>classes\<close>, the search fails with the shape
  error of the matrix product (the program's \<open>DimensionMismatchError\<close>); the session,
  and with it the store, is left as it was.
\<close>

theorem C6_dimension_mismatch:
  assumes d: "length query_feature \<noteq> ncols all_features"
    and v: "set target_categories \<inter> set (classes s) \<noteq> {}"
  shows "find_compatible_items tk query_feature all_features all_labels all_image_paths
           target_categories top_k s = (Inl MatmulShapeError, s)"
proof -
  from d have "matmul query_feature all_features = Inl MatmulShapeError"
    by (simp add: matmul_def)
  then show ?thesis by (simp add: find_compatible_items_valid[OF v])
qed

theorem C6_dimension_mismatch_witness:
  "length [1::real] \<noteq> ncols demo_features \<and>
   set [''tops''] \<inter> set (classes demo_session) \<noteq> {} \<and>
   find_compatible_items topk_stable [1] demo_features demo_labels demo_paths [''tops''] 5
     demo_session = (Inl MatmulShapeError, demo_session)"
proof -
  have d: "length [1::real] \<noteq> ncols demo_features" by (simp add: demo_features_def)
  have v: "set [''tops''] \<inter> set (classes demo_session) \<noteq> {}" by (simp add: demo_session_def)
  from C6_dimension_mismatch[OF d v] d v show ?thesis by (intro conjI)
qed

text \<open>
  C8, as stated, fails in its second half: the search does have an effect besides
  reading the store. When no requested category is valid it writes a warning to the
  page, so the session after the call differs from the one before.
\<close>

theorem C8_warning_effect_counterexample:
  "snd (find_compatible_items topk_stable [1, 0] demo_features demo_labels demo_paths
          [''shoes''] 5 demo_session) \<noteq> demo_session"
  by (simp add: demo_shoes) (simp add: demo_session_def)

text \<open>
  C8, amended. The value returned by the search is a function of the query, the requested
  categories, \<open>top_k\<close> and the store (features, labels, paths and \<^verbatim>\<open>classes\<close>): two
  calls with the same of these return the same, whatever else the two sessions hold. The
  call never changes \<^verbatim>\<open>classes\<close>, and its only effect is the one warning appended to the
  page when no requested category is valid.
\<close>

theorem C8_function_of_store:
  assumes "classes s1 = classes s2"
  shows "fst (find_compatible_items tk query_feature all_features all_labels all_image_paths
                target_categories top_k s1) =
         fst (find_compatible_items tk query_feature all_features all_labels all_image_paths
                target_categories top_k s2) \<and>
         classes (snd (find_compatible_items tk query_feature all_features all_labels
                all_image_paths target_categories top_k s1)) = classes s1 \<and>
         ui (snd (find_compatible_items tk query_feature all_features all_labels
                all_image_paths target_categories top_k s1)) =
           ui s1 @ (if set target_categories \<inter> set (classes s1) = {}
                    then [Warning no_valid_categories_msg] else [])"
proof (cases "set target_categories \<inter> set (classes s1) = {}")
  case True
  then have "set target_categories \<inter> set (classes s2) = {}" using assms by simp
  then show ?thesis using True
    by (simp add: find_compatible_items_no_valid)
next
  case False
  then have f2: "set target_categories \<inter> set (classes s2) \<noteq> {}" using assms by simp
  show ?thesis
  proof (cases "matmul query_feature all_features")
    case (Inl e)
    then show ?thesis using False
      by (simp add: find_compatible_items_valid[OF False] find_compatible_items_valid[OF f2])
  next
    case (Inr sims)
    then show ?thesis using False assms
      by (simp add: find_compatible_items_valid[OF False] find_compatible_items_valid[OF f2])
  qed
qed

theorem C8_function_of_store_witness:
  "classes demo_session = classes (demo_session\<lparr>ui := [Warning ''earlier'']\<rparr>) \<and>
   fst (find_compatible_items topk_stable [1, 0] demo_features demo_labels demo_paths
          [''tops''] 5 demo_session) =
   fst (find_compatible_items topk_stable [1, 0] demo_features demo_labels demo_paths
          [''tops''] 5 (demo_session\<lparr>ui := [Warning ''earlier'']\<rparr>)) \<and>
   classes (snd (find_compatible_items topk_stable [1, 0] demo_features demo_labels
          demo_paths [''tops''] 5 demo_session)) = classes demo_session \<and>
   ui (snd (find_compatible_items topk_stable [1, 0] demo_features demo_labels
          demo_paths [''tops''] 5 demo_session)) =
     ui demo_session @ (if set [''tops''] \<inter> set (classes demo_session) = {}
                        then [Warning no_valid_categories_msg] else [])"
proof -
  have h: "classes demo_session = classes (demo_session\<lparr>ui := [Warning ''earlier'']\<rparr>)"
    by simp
  from C8_function_of_store[OF h] h show ?thesis by (intro conjI) blast+
qed

text \<open>
  C3, as stated, fails: normalisation raises nothing for a zero-norm vector. A snapshot
  with the rows \<open>[0, 0]\<close> and \<open>[3, 4]\<close> loads, and its first row stays \<open>[0, 0]\<close>.
\<close>

theorem C3_zero_norm_loads_counterexample:
  "row_norm [0, 0] = 0 \<and>
   normalize_features (10 / 2 ^ 23) \<lparr>ncols = 2, rows = [[0, 0], [3, 4]]\<rparr> =
   Inr \<lparr>ncols = 2, rows = [[0, 0], [3 / 5, 4 / 5]]\<rparr>"
  using row_norm_0_0 normalize_zero_and_3_4 by (intro conjI)

text \<open>
  C3, amended. Loading a database that holds a zero-norm vector does not fail: the
  normalisation returns normally, leaves that vector as it is (the zero vector), and the
  vector's similarity to every query is 0, not NaN.
\<close>

theorem C3_zero_norm_kept:
  assumes "rows all_features \<noteq> []" and "ncols all_features \<noteq> 0" and "0 < eps"
    and "i < length (rows all_features)" and "row_norm (rows all_features ! i) = 0"
  shows "\<exists>nf. normalize_features eps all_features = Inr nf \<and>
           rows nf ! i = rows all_features ! i \<and>
           dot query_feature (rows nf ! i) = 0"
proof -
  let ?nf = "all_features\<lparr>rows := map (normalize_row eps) (rows all_features)\<rparr>"
  let ?r = "rows all_features ! i"
  have n: "normalize_features eps all_features = Inr ?nf"
    using assms(1,2) by (rule normalize_features_ok)
  have "row_norm ?r < eps" using assms(3,5) by simp
  then have k: "rows ?nf ! i = ?r"
    using assms(4) by (simp add: normalize_row_small)
  have "sumsq ?r = 0" using assms(5) sumsq_nonneg[of ?r] by (simp add: row_norm_sumsq)
  then have "dot query_feature ?r = 0"
    by (intro dot_zero_row sumsq_zero_all)
  with n k show ?thesis by (intro exI[of _ ?nf]) simp
qed

theorem C3_zero_norm_kept_witness:
  "rows \<lparr>ncols = 2, rows = [[0, 0], [3, 4]]\<rparr> \<noteq> [] \<and>
   ncols \<lparr>ncols = 2, rows = [[0, 0], [3, 4]]\<rparr> \<noteq> 0 \<and>
   (0::real) < 10 / 2 ^ 23 \<and>
   0 < length (rows \<lparr>ncols = 2, rows = [[0, 0], [3, 4]]\<rparr>) \<and>
   row_norm (rows \<lparr>ncols = 2, rows = [[0, 0], [3, 4]]\<rparr> ! 0) = 0 \<and>
   (\<exists>nf. normalize_features (10 / 2 ^ 23) \<lparr>ncols = 2, rows = [[0, 0], [3, 4]]\<rparr> = Inr nf \<and>
      rows nf ! 0 = rows \<lparr>ncols = 2, rows = [[0, 0], [3, 4]]\<rparr> ! 0 \<and>
      dot [1, 0] (rows nf ! 0) = 0)"
proof -
  let ?t = "\<lparr>ncols = 2, rows = [[0, 0], [3, 4]]\<rparr>"
  have h1: "rows ?t \<noteq> []" by simp
  have h2: "ncols ?t \<noteq> 0" by simp
  have h3: "(0::real) < 10 / 2 ^ 23" by simp
  have h4: "0 < length (rows ?t)" by simp
  have h5: "row_norm (rows ?t ! 0) = 0" by (simp add: row_norm_0_0)
  from C3_zero_norm_kept[OF h1 h2 h3 h4 h5, of "[1, 0]"] h1 h2 h3 h4 h5
  show ?thesis by (intro conjI)
qed




text \<open>
  C9, as stated, fails when another item of the category has the same vector. Rows 0 and
  1 of the store below are both \<open>[1, 0]\<close>; a query equal to row 1 ties them at score
  1, and with ties broken towards the lower row the top match is row 0 (\<open>a.jpg\<close>), not
  row 1 (\<open>b.jpg\<close>).
\<close>

theorem C9_twin_counterexample:
  "rows twin_features = [[1, 0], [1, 0], [0, 1]] \<and>
   row_norm [1, 0] = 1 \<and> row_norm [0, 1] = 1 \<and>
   find_compatible_items topk_stable (rows twin_features ! 1) twin_features demo_labels
     demo_paths [''tops''] 5 demo_session =
     (Inr [(''tops'', [''a.jpg'', ''b.jpg''])], demo_session) \<and>
   hd [''a.jpg'', ''b.jpg''] \<noteq> demo_paths ! 1"
proof -
  have r: "rows twin_features = [[1, 0], [1, 0], [0, 1]]" by (simp add: twin_features_def)
  have q: "rows twin_features ! 1 = [1, 0]" by (simp add: r)
  have h: "hd [''a.jpg'', ''b.jpg''] \<noteq> demo_paths ! 1" by (simp add: demo_paths_def)
  show ?thesis
    unfolding q using r row_norm_axis(1,2) twin_tops h by (intro conjI)
qed

text \<open>
  C9, amended. Take a store with one label and one path per vector and \<open>top_k\<close> at
  least 1, and search with any query for which line 115 yields the similarities
  \<open>sims\<close> (in particular with the query equal to stored vector \<open>i\<close>), requesting among
  others the category of item \<open>i\<close>. Then the search succeeds, the entry of that category
  is not empty, and its first element is the path of an item \<open>j\<close> of the same category
  whose computed similarity is at least that of item \<open>i\<close>. It is item \<open>i\<close> itself
  whenever every other item of the category has a strictly smaller computed similarity
  than item \<open>i\<close>. An item whose similarity equals that of item \<open>i\<close>, because it has the
  same vector or one so close that the rounded products agree, may come first instead.
  The score is not part of the result, and that it is 1.0 for a unit vector holds up
  to rounding only.
\<close>

theorem C9_top_match:
  assumes ok: "topk_ok tk"
    and mm: "mm query_feature all_features = Inr sims"
    and ll: "length all_labels = length sims"
    and lp: "length all_image_paths = length sims"
    and i: "i < length sims"
    and c1: "c \<in> set target_categories" and c2: "c \<in> set (classes s)"
    and lab: "all_labels ! i = int (list_index (classes s) c)"
    and k: "1 \<le> top_k"
  shows "\<exists>r ps j.
           find_compatible_items_with mm tk query_feature all_features all_labels
             all_image_paths target_categories top_k s = (Inr r, s) \<and>
           map_of r c = Some ps \<and> ps \<noteq> [] \<and> hd ps = all_image_paths ! j \<and>
           j < length sims \<and> all_labels ! j = all_labels ! i \<and> sims ! i \<le> sims ! j \<and>
           ((\<forall>j' < length sims. j' \<noteq> i \<and> all_labels ! j' = all_labels ! i \<longrightarrow>
               sims ! j' < sims ! i) \<longrightarrow> j = i)"
proof -
  let ?cls = "classes s"
  let ?ci = "list_index ?cls c"
  let ?cii = "cat_item_indices all_labels ?ci"
  let ?tis = "target_indices_of ?cls target_categories"
  have valid: "set target_categories \<inter> set ?cls \<noteq> {}" using c1 c2 by blast
  have k0: "0 \<le> top_k" using k by simp
  have "\<exists>r. category_loop tk ?cls sims all_labels all_image_paths top_k ?tis [] = Inr r"
    by (rule category_loop_total[OF ok k0]) (simp_all add: ll lp)
  then obtain r where
    loop: "category_loop tk ?cls sims all_labels all_image_paths top_k ?tis [] = Inr r" ..
  have f: "find_compatible_items_with mm tk query_feature all_features all_labels
             all_image_paths target_categories top_k s = (Inr r, s)"
    by (simp add: find_compatible_items_with_valid[OF valid] mm loop)
  have icii: "i \<in> set ?cii" using i ll lab by (simp add: cat_item_indices_props(2))
  then have ne: "?cii \<noteq> []" by auto
  have "?ci \<in> set ?tis" using c1 c2 by (rule target_indices_of_member)
  moreover have "?cls ! ?ci = c" using c2 by (simp add: list_index_nth)
  ultimately have "map_of [] c \<noteq> None \<or>
      (\<exists>ci \<in> set ?tis. ?cls ! ci = c \<and> cat_item_indices all_labels ci \<noteq> [])"
    using ne by blast
  with loop have "map_of r c \<noteq> None" by (rule category_loop_dom)
  then obtain ps where m: "map_of r c = Some ps" by blast
  from find_compatible_items_with_entry[OF f m] mm obtain orig where
    o: "topk_original_indices tk sims ?cii top_k = Inr orig"
    and g: "gather all_image_paths orig = Inr ps"
    by auto
  note props = topk_original_indices_props[OF ok o cat_item_indices_props(1)]
  have "int (length orig) = min top_k (int (length ?cii))" by (rule props(1))
  moreover have "1 \<le> int (length ?cii)" using ne by (cases ?cii) simp_all
  ultimately have "1 \<le> int (length orig)" using k by simp
  then have one: "orig \<noteq> []" by auto
  define j where "j = hd orig"
  have jo: "j \<in> set orig" using one by (simp add: j_def)
  with props(3) have jc: "j \<in> set ?cii" by blast
  then have jl: "j < length sims" and jlab: "all_labels ! j = all_labels ! i"
    using ll lab by (simp_all add: cat_item_indices_props(2))
  from gather_Inr[OF g] have ps: "ps = map ((!) all_image_paths) orig" by simp
  have psne: "ps \<noteq> []" using one by (simp add: ps)
  have hd: "hd ps = all_image_paths ! j" using one by (simp add: ps j_def hd_map)
  have le: "sims ! i \<le> sims ! j"
  proof (cases "i \<in> set orig")
    case False
    with props(5) icii jo show ?thesis by blast
  next
    case True
    from one obtain t where ot: "orig = j # t" by (cases orig) (simp_all add: j_def)
    from props(4) have "\<forall>x \<in> set t. sims ! x \<le> sims ! j" by (simp add: ot)
    with True show ?thesis by (auto simp: ot)
  qed
  have best: "(\<forall>j' < length sims. j' \<noteq> i \<and> all_labels ! j' = all_labels ! i \<longrightarrow>
               sims ! j' < sims ! i) \<longrightarrow> j = i"
  proof
    assume a: "\<forall>j' < length sims. j' \<noteq> i \<and> all_labels ! j' = all_labels ! i \<longrightarrow>
               sims ! j' < sims ! i"
    show "j = i"
    proof (rule ccontr)
      assume "j \<noteq> i"
      with a jl jlab have "sims ! j < sims ! i" by blast
      with le show False by simp
    qed
  qed
  from f m psne hd jl jlab le best show ?thesis
    by (intro exI[of _ r] exI[of _ ps] exI[of _ j] conjI)
qed

theorem C9_top_match_witness:
  "topk_ok topk_stable \<and>
   matmul (rows demo_features ! 0) demo_features = Inr [1, 0, - 1] \<and>
   length demo_labels = length [1, 0, - 1 :: real] \<and>
   length demo_paths = length [1, 0, - 1 :: real] \<and>
   0 < length [1, 0, - 1 :: real] \<and>
   ''tops'' \<in> set [''tops''] \<and> ''tops'' \<in> set (classes demo_session) \<and>
   demo_labels ! 0 = int (list_index (classes demo_session) ''tops'') \<and>
   (1::int) \<le> 5 \<and>
   (\<exists>r ps j.
      find_compatible_items_with matmul topk_stable (rows demo_features ! 0) demo_features
        demo_labels demo_paths [''tops''] 5 demo_session = (Inr r, demo_session) \<and>
      map_of r ''tops'' = Some ps \<and> ps \<noteq> [] \<and> hd ps = demo_paths ! j \<and>
      j < length [1, 0, - 1 :: real] \<and> demo_labels ! j = demo_labels ! 0 \<and>
      [1, 0, - 1 :: real] ! 0 \<le> [1, 0, - 1] ! j \<and>
      ((\<forall>j' < length [1, 0, - 1 :: real]. j' \<noteq> 0 \<and> demo_labels ! j' = demo_labels ! 0 \<longrightarrow>
          [1, 0, - 1 :: real] ! j' < [1, 0, - 1] ! 0) \<longrightarrow> j = 0))"
proof -
  have h2: "matmul (rows demo_features ! 0) demo_features = Inr [1, 0, - 1]"
    by (simp add: matmul_def dot_def demo_features_def)
  have h3: "length demo_labels = length [1, 0, - 1 :: real]" by (simp add: demo_labels_def)
  have h4: "length demo_paths = length [1, 0, - 1 :: real]" by (simp add: demo_paths_def)
  have h5: "0 < length [1, 0, - 1 :: real]" by simp
  have h6: "''tops'' \<in> set [''tops'']" by simp
  have h7: "''tops'' \<in> set (classes demo_session)" by (simp add: demo_session_def)
  have h8: "demo_labels ! 0 = int (list_index (classes demo_session) ''tops'')"
    by (simp add: demo_labels_def demo_session_def)
  have h9: "(1::int) \<le> 5" by simp
  from C9_top_match[where mm = matmul and query_feature = "rows demo_features ! 0"
      and all_features = demo_features, OF topk_ok_stable h2 h3 h4 h5 h6 h7 h8 h9]
    topk_ok_stable h2 h3 h4 h5 h6 h7 h8 h9
  show ?thesis by (intro conjI)
qed

end
